theory Spec2Isabelle
  imports Main "HOL-Library.Word"
begin

text \<open>
  A model of the handler \<open>summarize\<close> of \<open>main.py\<close> (lines 69 to 165): the header
  parsing, the choice of the content among text, file and image, and the placeholder
  summarizer.  The model starts where the handler is called with its parameters bound
  and ends with the \<open>SummaryResponse\<close> it returns or the exception it raises; the
  web framework around it (form parsing, CORS, the other routes) is not modelled.
  Every indexing, decoding and read of the handler that can raise in Python returns an
  \<open>error\<close> in the model, so that "the call succeeds" is a statement to prove.
\<close>

section \<open>Python values used by the summarize endpoint\<close>

text \<open>
  A Python \<open>str\<close> is a sequence of Unicode code points and \<open>len\<close> counts code points,
  so a string is a list of code points (natural numbers).  \<open>bytes\<close> is a list of
  8-bit words.  ASCII literals of the source are written \<open>ascii ''...''\<close>; the two
  non-ASCII literals of the source are the horizontal ellipsis (U+2026) and the bullet
  (U+2022).
\<close>

type_synonym str = "nat list"
type_synonym bytes = "8 word list"

definition ascii :: "string \<Rightarrow> str" where
  "ascii s = map of_char s"

definition ellipsis :: nat where
  "ellipsis = 8230"

definition bullet :: nat where
  "bullet = 8226"

definition newline :: nat where
  "newline = 10"

datatype error =
    HTTPException nat str
  | IndexError
  | UnicodeDecodeError
  | ReadError

subsection \<open>Whitespace: \<open>str.strip()\<close>, \<open>str.split()\<close>, \<open>str.join\<close>\<close>

text \<open>
  \<open>isspace\<close> is the whitespace predicate CPython uses for \<open>strip()\<close> and \<open>split()\<close>
  without arguments: TAB..CR, FS..US, SPACE, NEL, NBSP, U+1680, U+2000..U+200A,
  U+2028, U+2029, U+202F, U+205F, U+3000.
\<close>

definition isspace :: "nat \<Rightarrow> bool" where
  "isspace c = ((9 \<le> c \<and> c \<le> 13) \<or> (28 \<le> c \<and> c \<le> 32) \<or> c = 133 \<or> c = 160
     \<or> c = 5760 \<or> (8192 \<le> c \<and> c \<le> 8202) \<or> c = 8232 \<or> c = 8233 \<or> c = 8239
     \<or> c = 8287 \<or> c = 12288)"

definition py_strip :: "str \<Rightarrow> str" where
  "py_strip s = rev (dropWhile isspace (rev (dropWhile isspace s)))"

text \<open>
  \<open>s.split()\<close>: the maximal runs of non-whitespace code points, in order.  The first
  argument is the word being collected.
\<close>

fun split_ws :: "str \<Rightarrow> str \<Rightarrow> str list" where
  "split_ws cur [] = (if cur = [] then [] else [cur])"
| "split_ws cur (c # cs) =
     (if isspace c then (if cur = [] then split_ws [] cs else cur # split_ws [] cs)
      else split_ws (cur @ [c]) cs)"

definition py_split :: "str \<Rightarrow> str list" where
  "py_split s = split_ws [] s"

fun py_join :: "str \<Rightarrow> str list \<Rightarrow> str" where
  "py_join sep [] = []"
| "py_join sep [x] = x"
| "py_join sep (x # y # ys) = x @ sep @ py_join sep (y # ys)"

text \<open>\<open>s.split(d)\<close> for a one-character separator: never an empty list.\<close>

fun split_on :: "nat \<Rightarrow> str \<Rightarrow> str list" where
  "split_on d [] = [[]]"
| "split_on d (c # cs) =
     (if c = d then [] # split_on d cs
      else (case split_on d cs of [] \<Rightarrow> [[c]] | w # ws \<Rightarrow> (c # w) # ws))"

text \<open>\<open>s.split(d, 1)\<close>: at most one split, at the first separator.\<close>

definition split_once :: "nat \<Rightarrow> str \<Rightarrow> str list" where
  "split_once d s =
     (if d \<in> set s then [takeWhile (\<lambda>c. c \<noteq> d) s, tl (dropWhile (\<lambda>c. c \<noteq> d) s)]
      else [s])"

text \<open>\<open>xs[i]\<close> for a non-negative index raises IndexError out of range.\<close>

definition getitem :: "'a list \<Rightarrow> nat \<Rightarrow> error + 'a" where
  "getitem xs i = (if i < length xs then Inr (xs ! i) else Inl IndexError)"

text \<open>\<open>s[:k]\<close> for a Python integer \<open>k\<close>; a negative \<open>k\<close> counts from the end.\<close>

definition slice_to :: "'a list \<Rightarrow> int \<Rightarrow> 'a list" where
  "slice_to s k = (if 0 \<le> k then take (nat k) s else take (length s - nat (- k)) s)"

definition startswith :: "str \<Rightarrow> str \<Rightarrow> bool" where
  "startswith s p = (take (length p) s = p)"

text \<open>\<open>x or d\<close> on an optional string: \<open>None\<close> and the empty string are falsy.\<close>

fun py_or :: "str option \<Rightarrow> str \<Rightarrow> str" where
  "py_or None d = d"
| "py_or (Some s) d = (if s = [] then d else s)"

text \<open>\<open>d.get(k, dflt)\<close> on a dict literal, kept as its list of items.\<close>

definition dict_get :: "('k \<times> 'v) list \<Rightarrow> 'k \<Rightarrow> 'v \<Rightarrow> 'v" where
  "dict_get d k dflt = (case map_of d k of None \<Rightarrow> dflt | Some v \<Rightarrow> v)"

subsection \<open>\<open>str.lower()\<close>\<close>

text \<open>
  \<open>str.lower()\<close> maps the ASCII letters A..Z to a..z and leaves every other ASCII code
  point alone.  What it does to a code point from U+0080 on is decided by the Unicode
  tables of the Python runtime (and, for capital sigma, by the neighbouring
  characters); those tables are not part of the repository, so the model takes them as
  the parameter \<open>ul\<close>: \<open>ul pre c post\<close> is the lowercase of the non-ASCII code
  point \<open>c\<close> standing between \<open>pre\<close> and \<open>post\<close>.
\<close>

type_synonym ulower = "str \<Rightarrow> nat \<Rightarrow> str \<Rightarrow> str"

definition ascii_lower :: "nat \<Rightarrow> nat" where
  "ascii_lower c = (if 65 \<le> c \<and> c \<le> 90 then c + 32 else c)"

fun lower_from :: "ulower \<Rightarrow> str \<Rightarrow> str \<Rightarrow> str" where
  "lower_from ul pre [] = []"
| "lower_from ul pre (c # cs) =
     (if c < 128 then [ascii_lower c] else ul pre c cs) @ lower_from ul (pre @ [c]) cs"

definition py_lower :: "ulower \<Rightarrow> str \<Rightarrow> str" where
  "py_lower ul s = lower_from ul [] s"

subsection \<open>\<open>bytes.decode("utf-8", errors=...)\<close>\<close>

text \<open>
  One step of the UTF-8 decoder on a non-empty input: either a code point and the
  number of bytes consumed after the first, or an invalid range (the first byte and the
  given number of bytes after it).  Overlong forms, surrogates and values above
  U+10FFFF are invalid; an incomplete sequence at the end of the data is invalid up to
  the end.
\<close>

datatype utf8_step = Decoded nat nat | Invalid nat

definition is_cont :: "nat \<Rightarrow> bool" where
  "is_cont b = (128 \<le> b \<and> b < 192)"

fun utf8_next :: "nat \<Rightarrow> nat list \<Rightarrow> utf8_step" where
  "utf8_next b0 rest =
     (if b0 < 128 then Decoded b0 0
      else if b0 < 194 then Invalid 0
      else if b0 < 224 then
        (case rest of
           [] \<Rightarrow> Invalid 0
         | b1 # _ \<Rightarrow>
             if is_cont b1 then Decoded ((b0 - 192) * 64 + (b1 - 128)) 1 else Invalid 0)
      else if b0 < 240 then
        (case rest of
           [] \<Rightarrow> Invalid 0
         | b1 # rest1 \<Rightarrow>
             if is_cont b1 \<and> (b0 = 224 \<longrightarrow> 160 \<le> b1) \<and> (b0 = 237 \<longrightarrow> b1 < 160) then
               (case rest1 of
                  [] \<Rightarrow> Invalid 1
                | b2 # _ \<Rightarrow>
                    if is_cont b2
                    then Decoded ((b0 - 224) * 4096 + (b1 - 128) * 64 + (b2 - 128)) 2
                    else Invalid 1)
             else Invalid 0)
      else if b0 < 245 then
        (case rest of
           [] \<Rightarrow> Invalid 0
         | b1 # rest1 \<Rightarrow>
             if is_cont b1 \<and> (b0 = 240 \<longrightarrow> 144 \<le> b1) \<and> (b0 = 244 \<longrightarrow> b1 < 144) then
               (case rest1 of
                  [] \<Rightarrow> Invalid 1
                | b2 # rest2 \<Rightarrow>
                    if is_cont b2 then
                      (case rest2 of
                         [] \<Rightarrow> Invalid 2
                       | b3 # _ \<Rightarrow>
                           if is_cont b3
                           then Decoded ((b0 - 240) * 262144 + (b1 - 128) * 4096
                                         + (b2 - 128) * 64 + (b3 - 128)) 3
                           else Invalid 2)
                    else Invalid 1)
             else Invalid 0)
      else Invalid 0)"

datatype errors_mode = Strict | Ignore

text \<open>
  The decoding loop.  On an invalid range the error handler decides: \<open>strict\<close> raises
  UnicodeDecodeError, \<open>ignore\<close> skips the range and goes on.
\<close>

fun utf8_decode :: "errors_mode \<Rightarrow> nat list \<Rightarrow> error + str" where
  "utf8_decode h [] = Inr []"
| "utf8_decode h (b # bs) =
     (case utf8_next b bs of
        Decoded c k \<Rightarrow>
          (case utf8_decode h (drop k bs) of Inl e \<Rightarrow> Inl e | Inr s \<Rightarrow> Inr (c # s))
      | Invalid k \<Rightarrow>
          (case h of
             Strict \<Rightarrow> Inl UnicodeDecodeError
           | Ignore \<Rightarrow> utf8_decode h (drop k bs)))"

definition decode :: "errors_mode \<Rightarrow> bytes \<Rightarrow> error + str" where
  "decode h raw = utf8_decode h (map unat raw)"

section \<open>The endpoint \<open>POST /summarize\<close>\<close>

text \<open>
  An \<open>UploadFile\<close>: its optional filename and what \<open>await file.read()\<close> gives, the
  bytes or an exception.
\<close>

record upload_file =
  filename :: "str option"
  read :: "error + bytes"

text \<open>The parameters of \<open>summarize\<close>, as the framework hands them over.\<close>

record request =
  tone_in :: str
  length_in :: str
  language_in :: str
  bullets_in :: bool
  text_in :: "str option"
  file_in :: "upload_file option"
  image_in :: "upload_file option"
  authorization :: "str option"
  x_api_key :: "str option"

record SummaryResponse =
  summary :: str
  tone :: str
  length_out :: str
  language :: str
  bullets :: bool
  used_input :: str

definition truthy :: "str option \<Rightarrow> bool" where
  "truthy x = (case x of None \<Rightarrow> False | Some s \<Rightarrow> s \<noteq> [])"

subsection \<open>Header parsing (the key is read and never used)\<close>

text \<open>
  Lines 95 to 99.  \<open>authorization.split(" ", 1)[1]\<close> raises IndexError when the
  header holds no space; the guard before it looks at the lowercased header.
\<close>

definition parse_api_key :: "ulower \<Rightarrow> str option \<Rightarrow> str option \<Rightarrow> error + str option" where
  "parse_api_key ul auth xkey =
     (case
        (case auth of
           None \<Rightarrow> Inr None
         | Some a \<Rightarrow>
             if a \<noteq> [] \<and> startswith (py_lower ul a) (ascii ''bearer '')
             then (case getitem (split_once 32 a) 1 of
                     Inl e \<Rightarrow> Inl e
                   | Inr t \<Rightarrow> Inr (Some (py_strip t)))
             else Inr None)
      of
        Inl e \<Rightarrow> Inl e
      | Inr api_key \<Rightarrow> Inr (if \<not> truthy api_key \<and> truthy xkey then xkey else api_key))"

subsection \<open>Content resolution: text, then file, then image\<close>

definition could_not_read :: error where
  "could_not_read = HTTPException 400 (ascii ''Could not read uploaded file as text.'')"

definition no_input :: error where
  "no_input = HTTPException 400 (ascii ''No input provided. Submit text, a file, or an image.'')"

text \<open>
  The \<open>try\<close> block of lines 106 to 111: read the upload, decode it ignoring invalid
  bytes, take the label.  Any exception inside becomes the 400 response.
\<close>

definition read_file :: "upload_file \<Rightarrow> error + (str \<times> str)" where
  "read_file f =
     (case read f of
        Inl e \<Rightarrow> Inl could_not_read
      | Inr raw \<Rightarrow>
          (case decode Ignore raw of
             Inl e \<Rightarrow> Inl could_not_read
           | Inr content \<Rightarrow> Inr (content, py_or (filename f) (ascii ''uploaded file''))))"

definition image_label :: "upload_file \<Rightarrow> str" where
  "image_label im = py_or (filename im) (ascii ''uploaded image'')"

definition image_content :: "upload_file \<Rightarrow> str" where
  "image_content im = ascii ''[Image: '' @ image_label im @ ascii '']''"

text \<open>
  Lines 102 to 119.  The result is the pair \<open>(content, used_input)\<close>.  The file is
  read only while the content is empty, and so is the image looked at; a content that
  is still empty at the end is the 400 response.
\<close>

definition resolve_content :: "request \<Rightarrow> error + (str \<times> str)" where
  "resolve_content rq =
     (let content = py_strip (py_or (text_in rq) []) in
      case
        (case file_in rq of
           Some f \<Rightarrow> if content = [] then read_file f else Inr (content, [])
         | None \<Rightarrow> Inr (content, []))
      of
        Inl e \<Rightarrow> Inl e
      | Inr (content1, used1) \<Rightarrow>
          (case
             (case image_in rq of
                Some im \<Rightarrow>
                  if content1 = [] then (image_content im, image_label im)
                  else (content1, used1)
              | None \<Rightarrow> (content1, used1))
           of (content2, used2) \<Rightarrow>
             if content2 = [] then Inl no_input else Inr (content2, used2)))"

subsection \<open>The placeholder summarizer\<close>

text \<open>
  Lines 122 to 156: the whitespace-normalised text \<open>base\<close>, the cap of the length
  option, the truncated text, the tone prefix, the body (three bullet lines or the
  truncated text) and the language label.  Lines 158 to 165 build the response.
\<close>

definition length_caps :: "(str \<times> int) list" where
  "length_caps = [(ascii ''short'', 160), (ascii ''medium'', 320), (ascii ''detailed'', 480)]"

definition tone_map :: "(str \<times> str) list" where
  "tone_map =
     [(ascii ''analytical'', ascii ''Analytical summary:''),
      (ascii ''executive'', ascii ''Executive brief:''),
      (ascii ''neutral'', ascii ''Summary:''),
      (ascii ''technical'', ascii ''Technical digest:'')]"

definition lang_labels :: "(str \<times> str) list" where
  "lang_labels =
     [(ascii ''en'', []), (ascii ''es'', ascii '' (ES)''), (ascii ''de'', ascii '' (DE)''),
      (ascii ''fr'', ascii '' (FR)'')]"

definition base_text :: "str \<Rightarrow> str" where
  "base_text content = py_join (ascii '' '') (py_split content)"

definition cap_of :: "ulower \<Rightarrow> str \<Rightarrow> int" where
  "cap_of ul len = dict_get length_caps (py_lower ul len) 160"

definition truncated_text :: "int \<Rightarrow> str \<Rightarrow> str" where
  "truncated_text cap base =
     (if int (length base) > cap then slice_to base (cap - 1) @ [ellipsis] else base)"

definition tone_prefix :: "ulower \<Rightarrow> str \<Rightarrow> str" where
  "tone_prefix ul t = dict_get tone_map (py_lower ul t) (ascii ''Summary:'')"

definition lang_label :: "ulower \<Rightarrow> str \<Rightarrow> str" where
  "lang_label ul l = dict_get lang_labels (py_lower ul l) []"

definition first_sentence :: "str \<Rightarrow> error + str" where
  "first_sentence truncated =
     (case getitem (split_on 46 truncated) 0 of
        Inl e \<Rightarrow> Inl e
      | Inr seg \<Rightarrow> Inr (py_strip (if seg = [] then truncated else seg)))"

definition bullet_line2 :: str where
  "bullet_line2 = bullet # ascii '' Key point 2: Impact and implications.''"

definition bullet_line3 :: str where
  "bullet_line3 = bullet # ascii '' Next steps: Actions to take.''"

definition make_body :: "bool \<Rightarrow> str \<Rightarrow> error + str" where
  "make_body b truncated =
     (if b then
        (case first_sentence truncated of
           Inl e \<Rightarrow> Inl e
         | Inr fs \<Rightarrow>
             Inr ((bullet # ascii '' Key point 1: '' @ fs) @ [newline]
                  @ bullet_line2 @ [newline] @ bullet_line3))
      else Inr truncated)"

definition summarize :: "ulower \<Rightarrow> request \<Rightarrow> error + SummaryResponse" where
  "summarize ul rq =
     (case parse_api_key ul (authorization rq) (x_api_key rq) of
        Inl e \<Rightarrow> Inl e
      | Inr api_key \<Rightarrow>
          (case resolve_content rq of
             Inl e \<Rightarrow> Inl e
           | Inr (content, used) \<Rightarrow>
               (case make_body (bullets_in rq)
                       (truncated_text (cap_of ul (length_in rq)) (base_text content)) of
                  Inl e \<Rightarrow> Inl e
                | Inr body \<Rightarrow>
                    Inr \<lparr>summary = tone_prefix ul (tone_in rq) @ lang_label ul (language_in rq)
                                     @ [newline] @ body,
                         tone = tone_in rq,
                         length_out = length_in rq,
                         language = language_in rq,
                         bullets = bullets_in rq,
                         used_input =
                           (if used \<noteq> [] then used
                            else if truthy (text_in rq) then ascii ''text'' else [])\<rparr>)))"

section \<open>Notions of the specification\<close>

text \<open>
  The specification's normal form of a text: every run of whitespace collapsed into one
  space, then the ends trimmed.  \<open>collapse_ws seen s\<close> replaces each maximal run of
  whitespace of \<open>s\<close> by one space; \<open>seen\<close> says that the code point before \<open>s\<close> was
  whitespace (the run has its space already).
\<close>

fun collapse_ws :: "bool \<Rightarrow> str \<Rightarrow> str" where
  "collapse_ws seen [] = []"
| "collapse_ws seen (c # cs) =
     (if isspace c then (if seen then collapse_ws True cs else 32 # collapse_ws True cs)
      else c # collapse_ws False cs)"

definition spec_normalize :: "str \<Rightarrow> str" where
  "spec_normalize s = py_strip (collapse_ws False s)"

text \<open>\<open>s.rstrip()\<close>, the right half of \<open>py_strip\<close>.\<close>

definition py_rstrip :: "str \<Rightarrow> str" where
  "py_rstrip s = rev (dropWhile isspace (rev s))"




text \<open>
  The one fact about the runtime's lowercase tables that the endpoint relies on
  (in its header parsing): lowercasing a non-ASCII code point never yields a space.
\<close>

definition lower_makes_no_space :: "ulower \<Rightarrow> bool" where
  "lower_makes_no_space ul = (\<forall>pre c post. 128 \<le> c \<longrightarrow> 32 \<notin> set (ul pre c post))"

text \<open>A lowercase table that leaves every non-ASCII code point as it is.\<close>

definition keep_lower :: ulower where
  "keep_lower pre c post = [c]"

text \<open>The request with every option at the default of the form and no content.\<close>

definition default_request :: request where
  "default_request =
     \<lparr>tone_in = ascii ''analytical'', length_in = ascii ''short'', language_in = ascii ''en'',
      bullets_in = False, text_in = None, file_in = None, image_in = None,
      authorization = None, x_api_key = None\<rparr>"

text \<open>When the file's bytes are read: the trimmed text is empty and a file is given.\<close>

definition file_is_read :: "request \<Rightarrow> bool" where
  "file_is_read rq = (py_strip (py_or (text_in rq) []) = [] \<and> file_in rq \<noteq> None)"

definition file_read_failed :: "request \<Rightarrow> bool" where
  "file_read_failed rq =
     (file_is_read rq \<and> (case file_in rq of None \<Rightarrow> False | Some f \<Rightarrow> isl (read f)))"

text \<open>The text a readable file yields (empty when there is no file).\<close>

definition file_content :: "request \<Rightarrow> str" where
  "file_content rq =
     (case file_in rq of
        None \<Rightarrow> []
      | Some f \<Rightarrow>
          (case read f of
             Inl e \<Rightarrow> []
           | Inr raw \<Rightarrow> (case decode Ignore raw of Inl e \<Rightarrow> [] | Inr s \<Rightarrow> s)))"

definition file_label :: "request \<Rightarrow> str" where
  "file_label rq =
     (case file_in rq of None \<Rightarrow> [] | Some f \<Rightarrow> py_or (filename f) (ascii ''uploaded file''))"

text \<open>The body and the response in closed form, for a resolved content.\<close>

definition bullet_line1 :: "str \<Rightarrow> str" where
  "bullet_line1 t =
     bullet # ascii '' Key point 1: ''
       @ py_strip (if takeWhile (\<lambda>c. c \<noteq> 46) t = [] then t else takeWhile (\<lambda>c. c \<noteq> 46) t)"

definition body_text :: "bool \<Rightarrow> str \<Rightarrow> str" where
  "body_text b t =
     (if b then bullet_line1 t @ [newline] @ bullet_line2 @ [newline] @ bullet_line3 else t)"

definition response_of :: "ulower \<Rightarrow> request \<Rightarrow> str \<Rightarrow> str \<Rightarrow> SummaryResponse" where
  "response_of ul rq content used =
     \<lparr>summary = tone_prefix ul (tone_in rq) @ lang_label ul (language_in rq) @ [newline]
                  @ body_text (bullets_in rq)
                      (truncated_text (cap_of ul (length_in rq)) (base_text content)),
      tone = tone_in rq,
      length_out = length_in rq,
      language = language_in rq,
      bullets = bullets_in rq,
      used_input =
        (if used \<noteq> [] then used else if truthy (text_in rq) then ascii ''text'' else [])\<rparr>"

definition no_source_content :: "request \<Rightarrow> bool" where
  "no_source_content rq =
     (py_strip (py_or (text_in rq) []) = [] \<and> file_content rq = [] \<and> image_in rq = None)"

text \<open>The lines of the summary of a successful call (none for a failed one).\<close>

definition summary_lines :: "error + SummaryResponse \<Rightarrow> str list" where
  "summary_lines res = (case res of Inl e \<Rightarrow> [] | Inr r \<Rightarrow> split_on newline (summary r))"

subsection \<open>The requests of the specification's scenarios\<close>

text \<open>Empty text, no file, an image named \<open>cat.png\<close>, bullets on.\<close>

definition cat_request :: request where
  "cat_request =
     default_request
       \<lparr>bullets_in := True, text_in := Some [],
        image_in := Some \<lparr>filename = Some (ascii ''cat.png''), read = Inr []\<rparr>\<rparr>"

text \<open>The text \<open>Hello world. This matters.\<close> with the executive tone.\<close>

definition hello_request :: request where
  "hello_request =
     default_request
       \<lparr>tone_in := ascii ''executive'', text_in := Some (ascii ''Hello world. This matters.'')\<rparr>"

text \<open>A text of 160 letters \<open>a\<close> with bullets on, and one of 161 letters without.\<close>

definition long_bullets_request :: request where
  "long_bullets_request = default_request \<lparr>bullets_in := True, text_in := Some (replicate 160 97)\<rparr>"

definition long_request :: request where
  "long_request = default_request \<lparr>text_in := Some (replicate 161 97)\<rparr>"

text \<open>A text that starts with a full stop, bullets on.\<close>

definition dot_request :: request where
  "dot_request = default_request \<lparr>bullets_in := True, text_in := Some (ascii ''.env file'')\<rparr>"



text \<open>A text of one space together with the file \<open>notes.txt\<close> holding \<open>hi\<close>.\<close>

definition blank_text_request :: request where
  "blank_text_request =
     default_request
       \<lparr>text_in := Some (ascii '' ''),
        file_in := Some \<lparr>filename = Some (ascii ''notes.txt''), read = Inr [0x68, 0x69]\<rparr>\<rparr>"

text \<open>A file holding a space and a newline; a file holding \<open>hi\<close> and the invalid byte FF.\<close>

definition blank_file_request :: request where
  "blank_file_request =
     default_request
       \<lparr>file_in := Some \<lparr>filename = Some (ascii ''blank.txt''), read = Inr [0x20, 0x0A]\<rparr>\<rparr>"

definition notes_request :: request where
  "notes_request =
     default_request
       \<lparr>file_in := Some \<lparr>filename = Some (ascii ''notes.txt''), read = Inr [0x68, 0x69, 0xFF]\<rparr>\<rparr>"

section \<open>Facts about the string operations\<close>

lemma ascii_Nil: "ascii [] = []" by (simp add: ascii_def)
lemma ascii_Cons: "ascii (c # s) = of_char c # ascii s" by (simp add: ascii_def)
lemmas ascii_simps = ascii_Nil ascii_Cons

lemma py_strip_rstrip: "py_strip s = py_rstrip (dropWhile isspace s)"
  by (simp add: py_strip_def py_rstrip_def)


lemma py_rstrip_Cons:
  "py_rstrip (c # x) = (if isspace c \<and> py_rstrip x = [] then [] else c # py_rstrip x)"
  by (auto simp: py_rstrip_def dropWhile_append dropWhile_eq_Nil_conv)

lemma py_join_Cons: "py_join sep (x # xs) = x @ (if xs = [] then [] else sep @ py_join sep xs)"
  by (cases xs) auto

lemma split_ws_nonempty: "[] \<notin> set (split_ws cur s)"
  by (induction s arbitrary: cur) auto

lemma py_join_Nil_iff: "[] \<notin> set ws \<Longrightarrow> py_join sep ws = [] \<longleftrightarrow> ws = []"
  by (cases ws) (auto simp: py_join_Cons)

lemma isspace_32: "isspace 32" by (simp add: isspace_def)

lemma join_split_ws:
  "list_all (\<lambda>c. \<not> isspace c) cur \<Longrightarrow>
     py_join [32] (split_ws cur s) = cur @ py_rstrip (collapse_ws (cur = []) s)"
proof (induction s arbitrary: cur)
  case Nil
  then show ?case by (simp add: py_rstrip_def)
next
  case (Cons c cs)
  show ?case
  proof (cases "isspace c")
    case False
    with Cons.prems have "list_all (\<lambda>c. \<not> isspace c) (cur @ [c])" by simp
    from Cons.IH [OF this] False show ?thesis by (simp add: py_rstrip_Cons)
  next
    case True
    have IH: "py_join [32] (split_ws [] cs) = py_rstrip (collapse_ws True cs)"
      using Cons.IH [of "[]"] by simp
    have iff: "split_ws [] cs = [] \<longleftrightarrow> py_rstrip (collapse_ws True cs) = []"
      using IH py_join_Nil_iff [OF split_ws_nonempty, of "[32]" "[]" cs] by auto
    show ?thesis
    proof (cases "cur = []")
      case True
      with \<open>isspace c\<close> IH show ?thesis by simp
    next
      case False
      with \<open>isspace c\<close> IH iff show ?thesis
        by (simp add: py_join_Cons py_rstrip_Cons isspace_32)
    qed
  qed
qed

lemma dropWhile_collapse_ws: "dropWhile isspace (collapse_ws seen s) = collapse_ws True s"
  by (induction s arbitrary: seen) (auto simp: isspace_32)

lemma base_text_spec: "base_text s = spec_normalize s"
  using join_split_ws [of "[]" s]
  by (simp add: base_text_def py_split_def spec_normalize_def py_strip_rstrip
      dropWhile_collapse_ws ascii_def)

lemma set_collapse_ws: "c \<in> set (collapse_ws seen s) \<Longrightarrow> c = 32 \<or> (c \<in> set s \<and> \<not> isspace c)"
  by (induction s arbitrary: seen) (auto split: if_splits)

lemma set_py_strip: "set (py_strip s) \<subseteq> set s"
proof -
  have "set (py_strip s) \<subseteq> set (dropWhile isspace s)"
    unfolding py_strip_def using set_dropWhileD [of _ isspace "rev (dropWhile isspace s)"] by auto
  also have "\<dots> \<subseteq> set s" using set_dropWhileD [of _ isspace s] by auto
  finally show ?thesis .
qed

lemma set_base_text: "c \<in> set (base_text s) \<Longrightarrow> c = 32 \<or> (c \<in> set s \<and> \<not> isspace c)"
  using set_py_strip [of "collapse_ws False s"] set_collapse_ws [of c False s]
  by (auto simp: base_text_spec spec_normalize_def)

lemma py_strip_ends:
  "py_strip s \<noteq> [] \<Longrightarrow> \<not> isspace (hd (py_strip s)) \<and> \<not> isspace (last (py_strip s))"
proof -
  assume ne: "py_strip s \<noteq> []"
  let ?y = "dropWhile isspace s"
  have y: "?y \<noteq> []"
  proof
    assume "?y = []"
    then have "py_strip s = []" by (simp add: py_strip_def del: dropWhile_eq_Nil_conv)
    with ne show False by simp
  qed
  have r: "dropWhile isspace (rev ?y) \<noteq> []"
  proof
    assume "dropWhile isspace (rev ?y) = []"
    then have "py_strip s = []" by (simp add: py_strip_def del: dropWhile_eq_Nil_conv)
    with ne show False by simp
  qed
  have "last (py_strip s) = hd (dropWhile isspace (rev ?y))"
    using r by (simp add: py_strip_def last_rev)
  then have l: "\<not> isspace (last (py_strip s))" using hd_dropWhile [OF r] by simp
  have "\<exists>zs. ?y = py_strip s @ zs"
    unfolding py_strip_def
    by (metis rev_append rev_rev_ident takeWhile_dropWhile_id)
  then obtain zs where "?y = py_strip s @ zs" ..
  then have "hd ?y = hd (py_strip s)" using ne by (metis hd_append2)
  then show ?thesis using l hd_dropWhile [OF y] by simp
qed

lemma py_strip_fixed:
  "s = [] \<or> (\<not> isspace (hd s) \<and> \<not> isspace (last s)) \<Longrightarrow> py_strip s = s"
proof (cases "s = []")
  case True then show ?thesis by (simp add: py_strip_def)
next
  case False
  assume "s = [] \<or> (\<not> isspace (hd s) \<and> \<not> isspace (last s))"
  with False have h: "\<not> isspace (hd s)" and l: "\<not> isspace (last s)" by auto
  from False h have "dropWhile isspace s = s" by (cases s) auto
  moreover from False l have "dropWhile isspace (rev s) = rev s"
    by (cases "rev s") (auto simp: last_rev [symmetric] simp del: last_rev)
  ultimately show ?thesis by (simp add: py_strip_def)
qed

lemma base_text_ends:
  "base_text s \<noteq> [] \<Longrightarrow> \<not> isspace (hd (base_text s)) \<and> \<not> isspace (last (base_text s))"
  using py_strip_ends [of "collapse_ws False s"] by (simp add: base_text_spec spec_normalize_def)

lemma cap_of_cases: "cap_of ul l = 160 \<or> cap_of ul l = 320 \<or> cap_of ul l = 480"
  by (simp add: cap_of_def dict_get_def length_caps_def)

lemma isspace_ellipsis: "\<not> isspace ellipsis" by (simp add: isspace_def ellipsis_def)

lemma truncated_text_long:
  "1 \<le> cap \<Longrightarrow> cap < int (length base) \<Longrightarrow>
     truncated_text cap base = take (nat cap - 1) base @ [ellipsis]"
  by (simp add: truncated_text_def slice_to_def nat_diff_distrib)

lemma truncated_text_short:
  "int (length base) \<le> cap \<Longrightarrow> truncated_text cap base = base"
  by (simp add: truncated_text_def)

lemma length_truncated_text:
  "1 \<le> cap \<Longrightarrow> int (length (truncated_text cap base)) = min cap (int (length base))"
  by (auto simp: truncated_text_def slice_to_def min_def)

lemma py_strip_truncated:
  "1 \<le> cap \<Longrightarrow> py_strip (truncated_text cap (base_text s)) = truncated_text cap (base_text s)"
proof (cases "cap < int (length (base_text s))")
  case False
  assume "1 \<le> cap"
  with False base_text_ends [of s] show ?thesis
    by (auto simp: truncated_text_short intro!: py_strip_fixed)
next
  case True
  assume c: "1 \<le> cap"
  from True c have ne: "base_text s \<noteq> []" by auto
  let ?t = "take (nat cap - 1) (base_text s) @ [ellipsis]"
  have "\<not> isspace (hd ?t)"
    using base_text_ends [OF ne] isspace_ellipsis
    by (cases "nat cap - 1") (auto simp: hd_append ne)
  moreover have "\<not> isspace (last ?t)" using isspace_ellipsis by simp
  ultimately have "py_strip ?t = ?t" by (intro py_strip_fixed) simp
  then show ?thesis using truncated_text_long [OF c True] by simp
qed

lemma split_on_takeWhile: "\<exists>segs. split_on d s = takeWhile (\<lambda>c. c \<noteq> d) s # segs"
  by (induction s) (auto split: list.splits)

lemma getitem_split_on: "getitem (split_on d s) 0 = Inr (takeWhile (\<lambda>c. c \<noteq> d) s)"
  using split_on_takeWhile [of d s] by (auto simp: getitem_def)

lemma first_sentence_eq:
  "first_sentence t =
     Inr (py_strip (if takeWhile (\<lambda>c. c \<noteq> 46) t = [] then t else takeWhile (\<lambda>c. c \<noteq> 46) t))"
  by (simp add: first_sentence_def getitem_split_on)

section \<open>Facts about decoding, lowercasing and the stages of the endpoint\<close>

lemma utf8_decode_Ignore: "\<exists>s. utf8_decode Ignore bs = Inr s"
proof (induction "Ignore" bs rule: utf8_decode.induct)
  case 1
  show ?case by simp
next
  case (2 b bs)
  show ?case
  proof (cases "utf8_next b bs")
    case (Decoded c k)
    with 2(1) [OF Decoded] show ?thesis by (auto simp del: utf8_next.simps)
  next
    case (Invalid k)
    with 2(2) [OF Invalid] show ?thesis by (auto simp del: utf8_next.simps)
  qed
qed

lemma decode_Ignore: "\<exists>s. decode Ignore raw = Inr s"
  by (simp add: decode_def utf8_decode_Ignore)

lemma lower_from_ascii: "list_all (\<lambda>c. c < 128) s \<Longrightarrow> lower_from ul pre s = map ascii_lower s"
  by (induction s arbitrary: pre) auto

lemma py_lower_ascii: "list_all (\<lambda>c. c < 128) s \<Longrightarrow> py_lower ul s = map ascii_lower s"
  by (simp add: py_lower_def lower_from_ascii)

lemma lower_from_space:
  "lower_makes_no_space ul \<Longrightarrow> 32 \<in> set (lower_from ul pre s) \<Longrightarrow> 32 \<in> set s"
proof (induction s arbitrary: pre)
  case Nil
  then show ?case by simp
next
  case (Cons c cs)
  show ?case
  proof (cases "32 \<in> set (lower_from ul (pre @ [c]) cs)")
    case True
    with Cons.IH [OF Cons.prems(1)] show ?thesis by simp
  next
    case False
    with Cons.prems(2) have h: "32 \<in> set (if c < 128 then [ascii_lower c] else ul pre c cs)"
      by simp
    show ?thesis
    proof (cases "c < 128")
      case True
      with h have "ascii_lower c = 32" by simp
      then have "c = 32" by (simp add: ascii_lower_def split: if_splits)
      then show ?thesis by simp
    next
      case False
      with h Cons.prems(1) show ?thesis by (simp add: lower_makes_no_space_def)
    qed
  qed
qed

lemma startswith_bearer_space:
  assumes "startswith t (ascii ''bearer '')"
  shows "32 \<in> set t"
proof -
  from assms have "take (length (ascii ''bearer '')) t = ascii ''bearer ''"
    by (simp only: startswith_def)
  then have "set (ascii ''bearer '') \<subseteq> set t" by (metis set_take_subset)
  then show ?thesis by (simp add: ascii_simps)
qed

lemma parse_api_key_ok:
  assumes "lower_makes_no_space ul"
  shows "\<exists>k. parse_api_key ul a x = Inr k"
proof (cases a)
  case None
  then show ?thesis by (simp add: parse_api_key_def)
next
  case (Some t)
  show ?thesis
  proof (cases "t \<noteq> [] \<and> startswith (py_lower ul t) (ascii ''bearer '')")
    case False
    with Some show ?thesis by (auto simp: parse_api_key_def)
  next
    case True
    then have "32 \<in> set (py_lower ul t)" using startswith_bearer_space by blast
    then have "32 \<in> set t" using lower_from_space [OF assms] by (simp add: py_lower_def)
    with Some True show ?thesis by (simp add: parse_api_key_def getitem_def split_once_def)
  qed
qed

lemma parse_api_key_None: "parse_api_key ul None None = Inr None"
  by (simp add: parse_api_key_def truthy_def)

lemma image_content_nonempty: "image_content im \<noteq> []"
  by (simp add: image_content_def ascii_simps)

lemma file_label_nonempty: "file_in rq = Some f \<Longrightarrow> file_label rq \<noteq> []"
  by (cases "filename f") (auto simp: file_label_def ascii_simps)

lemma image_label_nonempty: "image_label im \<noteq> []"
  by (cases "filename im") (auto simp: image_label_def ascii_simps)

lemma read_file_eq:
  "read_file f =
     (case read f of
        Inl e \<Rightarrow> Inl could_not_read
      | Inr raw \<Rightarrow>
          Inr (case decode Ignore raw of Inl e \<Rightarrow> [] | Inr s \<Rightarrow> s,
               py_or (filename f) (ascii ''uploaded file'')))"
proof (cases "read f")
  case (Inl e)
  then show ?thesis by (simp add: read_file_def)
next
  case (Inr raw)
  obtain s where "decode Ignore raw = Inr s" using decode_Ignore by blast
  with Inr show ?thesis by (simp add: read_file_def)
qed

lemma resolve_content_cases:
  "resolve_content rq =
     (if py_strip (py_or (text_in rq) []) \<noteq> [] then Inr (py_strip (py_or (text_in rq) []), [])
      else if file_read_failed rq then Inl could_not_read
      else if file_content rq \<noteq> [] then Inr (file_content rq, file_label rq)
      else (case image_in rq of
              None \<Rightarrow> Inl no_input
            | Some im \<Rightarrow> Inr (image_content im, image_label im)))"
  by (auto simp: resolve_content_def Let_def read_file_eq file_read_failed_def file_is_read_def
      file_content_def file_label_def image_content_nonempty split: option.splits sum.splits)

lemma make_body_eq: "make_body b t = Inr (body_text b t)"
  by (simp add: make_body_def first_sentence_eq body_text_def bullet_line1_def)

lemma summarize_eq:
  "parse_api_key ul (authorization rq) (x_api_key rq) = Inr k \<Longrightarrow>
     summarize ul rq =
       (case resolve_content rq of
          Inl e \<Rightarrow> Inl e
        | Inr (content, used) \<Rightarrow> Inr (response_of ul rq content used))"
  by (simp add: summarize_def make_body_eq response_of_def split: sum.splits prod.splits)

lemma summarize_Inr_D:
  "summarize ul rq = Inr r \<Longrightarrow>
     \<exists>content used. resolve_content rq = Inr (content, used) \<and> r = response_of ul rq content used"
proof -
  assume a: "summarize ul rq = Inr r"
  then obtain k where k: "parse_api_key ul (authorization rq) (x_api_key rq) = Inr k"
    by (cases "parse_api_key ul (authorization rq) (x_api_key rq)") (auto simp: summarize_def)
  show ?thesis
  proof (cases "resolve_content rq")
    case (Inl e)
    with a summarize_eq [OF k] show ?thesis by simp
  next
    case (Inr p)
    obtain content used where "p = (content, used)" by (cases p)
    with Inr a summarize_eq [OF k] show ?thesis by simp
  qed
qed

lemma summarize_Inl_D:
  "lower_makes_no_space ul \<Longrightarrow> summarize ul rq = Inl e \<Longrightarrow> resolve_content rq = Inl e"
  using parse_api_key_ok [of ul "authorization rq" "x_api_key rq"]
  by (auto simp: summarize_eq split: sum.splits prod.splits)

lemma summarize_ok:
  "lower_makes_no_space ul \<Longrightarrow> resolve_content rq = Inr (content, used) \<Longrightarrow>
     summarize ul rq = Inr (response_of ul rq content used)"
  using parse_api_key_ok [of ul "authorization rq" "x_api_key rq"]
  by (auto simp: summarize_eq)

lemma summarize_no_headers:
  "authorization rq = None \<Longrightarrow> x_api_key rq = None \<Longrightarrow>
     resolve_content rq = Inr (content, used) \<Longrightarrow>
     summarize ul rq = Inr (response_of ul rq content used)"
  using summarize_eq [of ul rq None] by (simp add: parse_api_key_None)

lemma keep_lower_no_space: "lower_makes_no_space keep_lower"
  by (simp add: lower_makes_no_space_def keep_lower_def)

lemma split_on_none: "d \<notin> set a \<Longrightarrow> split_on d a = [a]"
  by (induction a) auto

lemma split_on_append: "d \<notin> set a \<Longrightarrow> split_on d (a @ d # rest) = a # split_on d rest"
  by (induction a) auto

lemma base_text_all_space: "list_all isspace s \<Longrightarrow> base_text s = []"
proof -
  assume a: "list_all isspace s"
  have "split_ws [] s = []" using a by (induction s) auto
  then show ?thesis by (simp add: base_text_def py_split_def)
qed

lemma split_ws_no_space:
  "list_all (\<lambda>c. \<not> isspace c) s \<Longrightarrow> split_ws cur s = (if cur @ s = [] then [] else [cur @ s])"
  by (induction s arbitrary: cur) auto

lemma base_text_no_space: "list_all (\<lambda>c. \<not> isspace c) s \<Longrightarrow> base_text s = s"
  by (simp add: base_text_def py_split_def split_ws_no_space)

lemma cap_of_eq:
  "cap_of ul l =
     (if py_lower ul l = ascii ''short'' then 160
      else if py_lower ul l = ascii ''medium'' then 320
      else if py_lower ul l = ascii ''detailed'' then 480 else 160)"
  by (simp add: cap_of_def dict_get_def length_caps_def)

lemma tone_prefix_eq:
  "tone_prefix ul t =
     (if py_lower ul t = ascii ''analytical'' then ascii ''Analytical summary:''
      else if py_lower ul t = ascii ''executive'' then ascii ''Executive brief:''
      else if py_lower ul t = ascii ''neutral'' then ascii ''Summary:''
      else if py_lower ul t = ascii ''technical'' then ascii ''Technical digest:''
      else ascii ''Summary:'')"
  by (simp add: tone_prefix_def dict_get_def tone_map_def)

lemma lang_label_eq:
  "lang_label ul g =
     (if py_lower ul g = ascii ''en'' then []
      else if py_lower ul g = ascii ''es'' then ascii '' (ES)''
      else if py_lower ul g = ascii ''de'' then ascii '' (DE)''
      else if py_lower ul g = ascii ''fr'' then ascii '' (FR)''
      else [])"
  by (simp add: lang_label_def dict_get_def lang_labels_def)

lemma tone_prefix_weird: "tone_prefix ul (ascii ''WEIRD'') = ascii ''Summary:''"
  by (simp add: tone_prefix_eq py_lower_ascii ascii_simps ascii_lower_def)

lemma ascii_lower_idem: "ascii_lower (ascii_lower c) = ascii_lower c"
  by (simp add: ascii_lower_def)

lemma py_lower_map_ascii_lower:
  "list_all (\<lambda>c. c < 128) s \<Longrightarrow> py_lower ul (map ascii_lower s) = py_lower ul s"
proof -
  assume a: "list_all (\<lambda>c. c < 128) s"
  then have "list_all (\<lambda>c. c < 128) (map ascii_lower s)"
    by (induction s) (auto simp: ascii_lower_def)
  with a show ?thesis by (simp add: py_lower_ascii ascii_lower_idem)
qed

lemma cap_of_short: "cap_of ul (ascii ''short'') = 160"
  by (simp add: cap_of_eq py_lower_ascii ascii_simps ascii_lower_def)

lemma no_space_replicate_a: "list_all (\<lambda>c. \<not> isspace c) (replicate n 97)"
  by (induction n) (auto simp: isspace_def)

lemma decode_ascii_bytes: "decode Ignore [0x20, 0x0A] = Inr [32, 10]"
  by (simp add: decode_def)

lemma decode_notes: "decode Ignore [0x68, 0x69, 0xFF] = Inr (ascii ''hi'')"
  by (simp add: decode_def ascii_simps)

lemma decode_strict_fails: "decode Strict [0x68, 0x69, 0xFF] = Inl UnicodeDecodeError"
  by (simp add: decode_def)

lemma resolve_cat: "resolve_content cat_request = Inr (ascii ''[Image: cat.png]'', ascii ''cat.png'')"
  by (simp add: resolve_content_cases cat_request_def default_request_def py_strip_def
      file_read_failed_def file_is_read_def file_content_def image_content_def image_label_def
      ascii_simps)

lemma resolve_hello:
  "resolve_content hello_request = Inr (ascii ''Hello world. This matters.'', [])"
  by (simp add: resolve_content_cases hello_request_def default_request_def py_strip_def
      ascii_simps isspace_def)

lemma base_cat: "base_text (ascii ''[Image: cat.png]'') = ascii ''[Image: cat.png]''"
  by (simp add: base_text_def py_split_def ascii_simps isspace_def)

lemma base_hello:
  "base_text (ascii ''Hello world. This matters.'') = ascii ''Hello world. This matters.''"
  by (simp add: base_text_def py_split_def ascii_simps isspace_def)

lemma tone_prefix_analytical: "tone_prefix ul (ascii ''analytical'') = ascii ''Analytical summary:''"
  by (simp add: tone_prefix_eq py_lower_ascii ascii_simps ascii_lower_def)

lemma tone_prefix_executive: "tone_prefix ul (ascii ''executive'') = ascii ''Executive brief:''"
  by (simp add: tone_prefix_eq py_lower_ascii ascii_simps ascii_lower_def)

lemma lang_label_en: "lang_label ul (ascii ''en'') = []"
  by (simp add: lang_label_eq py_lower_ascii ascii_simps ascii_lower_def)

lemma summarize_cat:
  "summarize ul cat_request =
     Inr \<lparr>summary = ascii ''Analytical summary:'' @ [newline]
                  @ (bullet # ascii '' Key point 1: [Image: cat'') @ [newline]
                  @ bullet_line2 @ [newline] @ bullet_line3,
          tone = ascii ''analytical'', length_out = ascii ''short'', language = ascii ''en'',
          bullets = True, used_input = ascii ''cat.png''\<rparr>"
proof -
  have h: "authorization cat_request = None" "x_api_key cat_request = None"
    by (simp_all add: cat_request_def default_request_def)
  have t: "truncated_text 160 (ascii ''[Image: cat.png]'') = ascii ''[Image: cat.png]''"
    by (simp add: truncated_text_def ascii_simps)
  have b: "bullet_line1 (ascii ''[Image: cat.png]'') = bullet # ascii '' Key point 1: [Image: cat''"
    by (simp add: bullet_line1_def ascii_simps py_strip_def isspace_def)
  have o: "length_in cat_request = ascii ''short''" "tone_in cat_request = ascii ''analytical''"
    "language_in cat_request = ascii ''en''" "bullets_in cat_request = True"
    "text_in cat_request = Some []"
    by (simp_all add: cat_request_def default_request_def)
  have "response_of ul cat_request (ascii ''[Image: cat.png]'') (ascii ''cat.png'') =
     \<lparr>summary = ascii ''Analytical summary:'' @ [newline]
                  @ (bullet # ascii '' Key point 1: [Image: cat'') @ [newline]
                  @ bullet_line2 @ [newline] @ bullet_line3,
          tone = ascii ''analytical'', length_out = ascii ''short'', language = ascii ''en'',
          bullets = True, used_input = ascii ''cat.png''\<rparr>"
    by (simp add: response_of_def o cap_of_short base_cat t tone_prefix_analytical
        lang_label_en body_text_def b)
       (simp add: ascii_simps)
  then show ?thesis using summarize_no_headers [OF h resolve_cat, of ul] by simp
qed


lemma py_strip_replicate_a: "py_strip (replicate n 97) = replicate n 97"
proof (cases n)
  case 0
  then show ?thesis by (simp add: py_strip_def)
next
  case (Suc m)
  have "\<not> isspace 97" by (simp add: isspace_def)
  then show ?thesis
    by (intro py_strip_fixed) (simp add: Suc last_replicate del: replicate.simps)
qed

lemma takeWhile_replicate_a: "takeWhile (\<lambda>c. c \<noteq> 46) (replicate n 97) = replicate n (97::nat)"
  by (induction n) auto

lemma resolve_long_bullets:
  "resolve_content long_bullets_request = Inr (replicate 160 97, [])"
proof -
  have "replicate 160 (97::nat) \<noteq> []" by simp
  then show ?thesis
    by (simp add: resolve_content_cases long_bullets_request_def default_request_def
        py_strip_replicate_a)
qed

lemma resolve_long: "resolve_content long_request = Inr (replicate 161 97, [])"
proof -
  have "replicate 161 (97::nat) \<noteq> []" by simp
  then show ?thesis
    by (simp add: resolve_content_cases long_request_def default_request_def
        py_strip_replicate_a)
qed

lemma newline_notin_base_text: "newline \<notin> set (base_text s)"
  using set_base_text [of newline s] by (auto simp: newline_def isspace_def)

lemma newline_notin_truncated: "newline \<notin> set (truncated_text cap (base_text s))"
  using newline_notin_base_text [of s] set_take_subset
  by (auto simp: truncated_text_def slice_to_def newline_def ellipsis_def dest: in_set_takeD)

lemma newline_notin_ascii_lines:
  "newline \<notin> set (bullet # ascii '' Key point 1: '')"
  "newline \<notin> set bullet_line2" "newline \<notin> set bullet_line3"
  by (simp_all add: newline_def bullet_def bullet_line2_def bullet_line3_def ascii_simps)

lemma newline_notin_bullet_line1:
  "1 \<le> cap \<Longrightarrow> newline \<notin> set (bullet_line1 (truncated_text cap (base_text s)))"
proof -
  let ?t = "truncated_text cap (base_text s)"
  let ?seg = "takeWhile (\<lambda>c. c \<noteq> 46) ?t"
  have "set (py_strip (if ?seg = [] then ?t else ?seg)) \<subseteq> set ?t"
    using set_py_strip [of "if ?seg = [] then ?t else ?seg"] set_takeWhileD [of _ "\<lambda>c. c \<noteq> 46" ?t]
    by (auto split: if_splits)
  with newline_notin_truncated [of cap s] newline_notin_ascii_lines(1)
  show ?thesis by (auto simp: bullet_line1_def)
qed

lemma split_on_three_lines:
  "newline \<notin> set a \<Longrightarrow> newline \<notin> set b \<Longrightarrow> newline \<notin> set c \<Longrightarrow>
     split_on newline (a @ [newline] @ b @ [newline] @ c) = [a, b, c]"
  by (simp add: split_on_append split_on_none)

lemma bullet_line1_eq:
  "1 \<le> cap \<Longrightarrow>
     bullet_line1 (truncated_text cap (base_text s)) =
       bullet # ascii '' Key point 1: '' @
         (if takeWhile (\<lambda>c. c \<noteq> 46) (truncated_text cap (base_text s)) = []
          then truncated_text cap (base_text s)
          else py_strip (takeWhile (\<lambda>c. c \<noteq> 46) (truncated_text cap (base_text s))))"
  by (simp add: bullet_line1_def py_strip_truncated)

lemma errors_differ: "could_not_read \<noteq> no_input"
  by (simp add: could_not_read_def no_input_def ascii_simps)

lemma resolve_content_Inl_iff:
  "resolve_content rq = Inl e \<longleftrightarrow>
     (file_read_failed rq \<and> e = could_not_read) \<or>
     (\<not> file_read_failed rq \<and> no_source_content rq \<and> e = no_input)"
  by (auto simp: resolve_content_cases no_source_content_def file_read_failed_def
      file_is_read_def split: option.splits)

lemma isl_resolve_content:
  "isl (resolve_content rq) \<longleftrightarrow> no_source_content rq \<or> file_read_failed rq"
  by (auto simp: resolve_content_cases no_source_content_def file_read_failed_def
      file_is_read_def split: option.splits)

lemma isl_summarize:
  "lower_makes_no_space ul \<Longrightarrow> isl (summarize ul rq) = isl (resolve_content rq)"
proof (cases "resolve_content rq")
  case (Inl e)
  assume "lower_makes_no_space ul"
  from parse_api_key_ok [OF this] obtain k where
    "parse_api_key ul (authorization rq) (x_api_key rq) = Inr k" by blast
  from summarize_eq [OF this] Inl show ?thesis by simp
next
  case (Inr p)
  assume a: "lower_makes_no_space ul"
  obtain content used where "p = (content, used)" by (cases p)
  with Inr summarize_ok [OF a] show ?thesis by simp
qed

lemma summarize_Inl_iff:
  "lower_makes_no_space ul \<Longrightarrow> summarize ul rq = Inl e \<longleftrightarrow> resolve_content rq = Inl e"
proof -
  assume a: "lower_makes_no_space ul"
  from parse_api_key_ok [OF a] obtain k where
    "parse_api_key ul (authorization rq) (x_api_key rq) = Inr k" by blast
  from summarize_eq [OF this] show ?thesis
    by (auto split: sum.splits prod.splits)
qed





lemma py_or_nonempty_truthy: "py_or x [] \<noteq> [] \<Longrightarrow> truthy x"
  by (cases x) (auto simp: truthy_def split: if_splits)

lemma py_strip_nonempty: "py_strip s \<noteq> [] \<Longrightarrow> s \<noteq> []"
  by (auto simp: py_strip_def)

lemma file_content_nonempty_D:
  "file_content rq \<noteq> [] \<Longrightarrow>
     \<exists>f raw. file_in rq = Some f \<and> read f = Inr raw \<and> decode Ignore raw = Inr (file_content rq)"
  by (auto simp: file_content_def split: option.splits sum.splits)

lemma resolve_dot: "resolve_content dot_request = Inr (ascii ''.env file'', [])"
  by (simp add: resolve_content_cases dot_request_def default_request_def py_strip_def
      ascii_simps isspace_def)

lemma base_dot: "base_text (ascii ''.env file'') = ascii ''.env file''"
  by (simp add: base_text_def py_split_def ascii_simps isspace_def)

lemma newline_notin_prefix: "newline \<notin> set (tone_prefix ul t)"
  by (simp add: tone_prefix_eq newline_def ascii_simps)

lemma newline_notin_label: "newline \<notin> set (lang_label ul g)"
  by (simp add: lang_label_eq newline_def ascii_simps)

lemma summarize_hello:
  "summarize ul hello_request =
     Inr \<lparr>summary = ascii ''Executive brief:'' @ [newline] @ ascii ''Hello world. This matters.'',
          tone = ascii ''executive'', length_out = ascii ''short'', language = ascii ''en'',
          bullets = False, used_input = ascii ''text''\<rparr>"
proof -
  have h: "authorization hello_request = None" "x_api_key hello_request = None"
    by (simp_all add: hello_request_def default_request_def)
  have o: "length_in hello_request = ascii ''short''" "tone_in hello_request = ascii ''executive''"
    "language_in hello_request = ascii ''en''" "bullets_in hello_request = False"
    "text_in hello_request = Some (ascii ''Hello world. This matters.'')"
    by (simp_all add: hello_request_def default_request_def)
  have t: "truncated_text 160 (ascii ''Hello world. This matters.'') =
      ascii ''Hello world. This matters.''"
    by (simp add: truncated_text_def ascii_simps)
  have "response_of ul hello_request (ascii ''Hello world. This matters.'') [] =
     \<lparr>summary = ascii ''Executive brief:'' @ [newline] @ ascii ''Hello world. This matters.'',
          tone = ascii ''executive'', length_out = ascii ''short'', language = ascii ''en'',
          bullets = False, used_input = ascii ''text''\<rparr>"
    by (simp add: response_of_def o cap_of_short base_hello t tone_prefix_executive
        lang_label_en body_text_def truthy_def)
       (simp add: ascii_simps)
  then show ?thesis using summarize_no_headers [OF h resolve_hello, of ul] by simp
qed

lemma resolve_notes: "resolve_content notes_request = Inr (ascii ''hi'', ascii ''notes.txt'')"
  by (simp add: resolve_content_cases notes_request_def default_request_def py_strip_def
      file_read_failed_def file_is_read_def file_content_def file_label_def decode_notes)
     (simp add: ascii_simps)

subsection \<open>The decoder decodes UTF-8\<close>
























lemma resolve_blank_text:
  "resolve_content blank_text_request = Inr (ascii ''hi'', ascii ''notes.txt'')"
proof -
  have d: "decode Ignore [0x68, 0x69] = Inr (ascii ''hi'')" by (simp add: decode_def ascii_simps)
  show ?thesis
    by (simp add: resolve_content_cases blank_text_request_def default_request_def py_strip_def
        file_read_failed_def file_is_read_def file_content_def file_label_def d isspace_def
        ascii_Cons [of "CHR '' ''"] ascii_Nil)
       (simp add: ascii_simps)
qed

section \<open>The claims\<close>

text \<open>
  Claim C1, as stated, fails.  For the request with empty text, no file, the image
  \<open>cat.png\<close> and bullets on, the first line of the body ends at the first full stop
  of the content, which is the one inside the file name: it is
  \<open>Key point 1: [Image: cat\<close> after the bullet, not \<open>Key point 1: [Image: cat.png]\<close>.
\<close>

theorem C1_counterexample:
  "summary_lines (summarize keep_lower cat_request) ! 1 = bullet # ascii '' Key point 1: [Image: cat'' \<and>
   summary_lines (summarize keep_lower cat_request) ! 1
     \<noteq> bullet # ascii '' Key point 1: [Image: cat.png]''"
  by (simp add: summarize_cat summary_lines_def bullet_line2_def bullet_line3_def ascii_simps
      newline_def bullet_def)

text \<open>
  Claim C1, amended.  For that request the resolved content is \<open>[Image: cat.png]\<close>
  with the label \<open>cat.png\<close>, the body is three bullet lines, and the first of them
  quotes the content up to its first full stop: \<open>Key point 1: [Image: cat\<close>.
\<close>

theorem C1_image_scenario:
  "resolve_content cat_request = Inr (ascii ''[Image: cat.png]'', ascii ''cat.png'') \<and>
   make_body (bullets_in cat_request)
       (truncated_text (cap_of ul (length_in cat_request)) (base_text (ascii ''[Image: cat.png]'')))
     = Inr ((bullet # ascii '' Key point 1: [Image: cat'') @ [newline]
            @ (bullet # ascii '' Key point 2: Impact and implications.'') @ [newline]
            @ (bullet # ascii '' Next steps: Actions to take.'')) \<and>
   summary_lines (summarize ul cat_request) =
     [ascii ''Analytical summary:'',
      bullet # ascii '' Key point 1: [Image: cat'',
      bullet # ascii '' Key point 2: Impact and implications.'',
      bullet # ascii '' Next steps: Actions to take.'']"
proof -
  have o: "length_in cat_request = ascii ''short''" "bullets_in cat_request = True"
    by (simp_all add: cat_request_def default_request_def)
  have t: "truncated_text 160 (ascii ''[Image: cat.png]'') = ascii ''[Image: cat.png]''"
    by (simp add: truncated_text_def ascii_simps)
  have b: "bullet_line1 (ascii ''[Image: cat.png]'') = bullet # ascii '' Key point 1: [Image: cat''"
    by (simp add: bullet_line1_def ascii_simps py_strip_def isspace_def)
  have 2: "make_body (bullets_in cat_request)
       (truncated_text (cap_of ul (length_in cat_request)) (base_text (ascii ''[Image: cat.png]'')))
     = Inr ((bullet # ascii '' Key point 1: [Image: cat'') @ [newline]
            @ (bullet # ascii '' Key point 2: Impact and implications.'') @ [newline]
            @ (bullet # ascii '' Next steps: Actions to take.''))"
    by (simp add: o cap_of_short base_cat t make_body_eq body_text_def b bullet_line2_def
        bullet_line3_def)
  have 3: "summary_lines (summarize ul cat_request) =
     [ascii ''Analytical summary:'',
      bullet # ascii '' Key point 1: [Image: cat'',
      bullet # ascii '' Key point 2: Impact and implications.'',
      bullet # ascii '' Next steps: Actions to take.'']"
    by (simp add: summarize_cat summary_lines_def bullet_line2_def bullet_line3_def ascii_simps
        newline_def bullet_def)
  from resolve_cat 2 3 show ?thesis by simp
qed

text \<open>
  The amended claim C1 at the lowercase table \<open>keep_lower\<close>: four lines in all (the
  prefix line and the three bullets), and the image's name as the input used.
\<close>

theorem C1_image_scenario_witness:
  "used_input (projr (summarize keep_lower cat_request)) = ascii ''cat.png'' \<and>
   length (summary_lines (summarize keep_lower cat_request)) = 4"
  using C1_image_scenario [of keep_lower] by (simp add: summarize_cat)

text \<open>
  Claim C2, as stated, fails when bullets are on.  For a text of 160 letters \<open>a\<close>,
  length \<open>short\<close> (cap 160) and bullets on, the call succeeds and its body is the
  three bullet lines, 246 code points long: longer than the cap.
\<close>

theorem C2_counterexample:
  "resolve_content long_bullets_request = Inr (replicate 160 97, []) \<and>
   cap_of keep_lower (length_in long_bullets_request) = 160 \<and>
   make_body (bullets_in long_bullets_request)
       (truncated_text (cap_of keep_lower (length_in long_bullets_request))
          (base_text (replicate 160 97)))
     = Inr ((bullet # ascii '' Key point 1: '' @ replicate 160 97) @ [newline]
            @ bullet_line2 @ [newline] @ bullet_line3) \<and>
   length ((bullet # ascii '' Key point 1: '' @ replicate 160 97) @ [newline]
            @ bullet_line2 @ [newline] @ bullet_line3) = 246 \<and>
   \<not> int (length ((bullet # ascii '' Key point 1: '' @ replicate 160 97) @ [newline]
            @ bullet_line2 @ [newline] @ bullet_line3))
       \<le> cap_of keep_lower (length_in long_bullets_request) \<and>
   summarize keep_lower long_bullets_request =
     Inr (response_of keep_lower long_bullets_request (replicate 160 97) [])"
proof -
  have h: "authorization long_bullets_request = None" "x_api_key long_bullets_request = None"
    by (simp_all add: long_bullets_request_def default_request_def)
  note s = summarize_no_headers [OF h resolve_long_bullets, of keep_lower]
  have o: "length_in long_bullets_request = ascii ''short''"
    "bullets_in long_bullets_request = True"
    by (simp_all add: long_bullets_request_def default_request_def)
  have t: "truncated_text 160 (replicate 160 97) = replicate 160 97"
    by (simp add: truncated_text_def)
  have b: "bullet_line1 (replicate 160 97) = bullet # ascii '' Key point 1: '' @ replicate 160 97"
    by (simp add: bullet_line1_def takeWhile_replicate_a py_strip_replicate_a)
  have 3: "make_body (bullets_in long_bullets_request)
       (truncated_text (cap_of keep_lower (length_in long_bullets_request))
          (base_text (replicate 160 97)))
     = Inr ((bullet # ascii '' Key point 1: '' @ replicate 160 97) @ [newline]
            @ bullet_line2 @ [newline] @ bullet_line3)"
    by (simp add: o cap_of_short base_text_no_space [OF no_space_replicate_a] t make_body_eq
        body_text_def b)
  have 4: "length ((bullet # ascii '' Key point 1: '' @ replicate 160 97) @ [newline]
            @ bullet_line2 @ [newline] @ bullet_line3) = 246"
    by (simp add: bullet_line2_def bullet_line3_def ascii_simps)
  from resolve_long_bullets 3 4 s show ?thesis by (simp add: o cap_of_short)
qed

text \<open>
  Claim C2, amended to the paragraph mode.  For every call that succeeds with bullets
  off, and every value of \<open>length\<close>, the body is at most as long as the cap of that
  value; and when the whitespace-collapsed content is longer than the cap, the body is
  its first \<open>cap - 1\<close> code points followed by one ellipsis, so it has exactly \<open>cap\<close>
  code points and its last one is the ellipsis.
\<close>

theorem C2_body_within_cap:
  assumes "summarize ul rq = Inr r" and "\<not> bullets_in rq"
    and "resolve_content rq = Inr (content, used)"
  shows "\<exists>body.
     make_body (bullets_in rq)
       (truncated_text (cap_of ul (length_in rq)) (base_text content)) = Inr body \<and>
     summary r = tone_prefix ul (tone_in rq) @ lang_label ul (language_in rq) @ [newline] @ body \<and>
     int (length body) \<le> cap_of ul (length_in rq) \<and>
     (cap_of ul (length_in rq) < int (length (base_text content)) \<longrightarrow>
        body = take (nat (cap_of ul (length_in rq)) - 1) (base_text content) @ [ellipsis] \<and>
        int (length body) = cap_of ul (length_in rq) \<and> last body = ellipsis)"
proof -
  let ?cap = "cap_of ul (length_in rq)"
  let ?base = "base_text content"
  have c: "1 \<le> ?cap" using cap_of_cases [of ul "length_in rq"] by auto
  from summarize_Inr_D [OF assms(1)] assms(3)
  have r: "r = response_of ul rq content used" by auto
  have 1: "make_body (bullets_in rq) (truncated_text ?cap ?base) = Inr (truncated_text ?cap ?base)"
    using assms(2) by (simp add: make_body_eq body_text_def)
  have 2: "summary r = tone_prefix ul (tone_in rq) @ lang_label ul (language_in rq) @ [newline]
      @ truncated_text ?cap ?base"
    using assms(2) by (simp add: r response_of_def body_text_def)
  have 3: "int (length (truncated_text ?cap ?base)) \<le> ?cap"
    using length_truncated_text [OF c, of ?base] by simp
  have 4: "?cap < int (length ?base) \<longrightarrow>
        truncated_text ?cap ?base = take (nat ?cap - 1) ?base @ [ellipsis] \<and>
        int (length (truncated_text ?cap ?base)) = ?cap \<and>
        last (truncated_text ?cap ?base) = ellipsis"
    using c truncated_text_long [OF c, of ?base] length_truncated_text [OF c, of ?base]
    by auto
  from 1 2 3 4 show ?thesis by blast
qed

text \<open>
  The amended claim C2 on a text of 161 letters \<open>a\<close>: the body is 159 letters and the
  ellipsis.
\<close>

theorem C2_body_within_cap_witness:
  "summarize keep_lower long_request = Inr (response_of keep_lower long_request (replicate 161 97) []) \<and>
   \<not> bullets_in long_request \<and>
   resolve_content long_request = Inr (replicate 161 97, []) \<and>
   summary (response_of keep_lower long_request (replicate 161 97) []) =
     ascii ''Analytical summary:'' @ [newline] @ replicate 159 97 @ [ellipsis] \<and>
   length (replicate 159 (97::nat) @ [ellipsis]) = 160"
proof -
  have h: "authorization long_request = None" "x_api_key long_request = None"
    by (simp_all add: long_request_def default_request_def)
  have o: "length_in long_request = ascii ''short''" "\<not> bullets_in long_request"
    "tone_in long_request = ascii ''analytical''" "language_in long_request = ascii ''en''"
    by (simp_all add: long_request_def default_request_def)
  note s = summarize_no_headers [OF h resolve_long, of keep_lower]
  from C2_body_within_cap [OF s o(2) resolve_long]
  obtain body where b:
    "summary (response_of keep_lower long_request (replicate 161 97) []) =
       tone_prefix keep_lower (tone_in long_request)
       @ lang_label keep_lower (language_in long_request) @ [newline] @ body"
    "cap_of keep_lower (length_in long_request) < int (length (base_text (replicate 161 97))) \<longrightarrow>
       body = take (nat (cap_of keep_lower (length_in long_request)) - 1)
                (base_text (replicate 161 97)) @ [ellipsis]"
    by blast
  from b(2) have "body = replicate 159 97 @ [ellipsis]"
    by (simp add: o cap_of_short base_text_no_space [OF no_space_replicate_a])
  with b(1) have "summary (response_of keep_lower long_request (replicate 161 97) []) =
     ascii ''Analytical summary:'' @ [newline] @ replicate 159 97 @ [ellipsis]"
    by (simp add: o tone_prefix_analytical lang_label_en)
  with s o(2) resolve_long show ?thesis by simp
qed

text \<open>
  Claim C3.  The text that is truncated is the content with every run of whitespace
  collapsed into one space and the ends trimmed (\<open>spec_normalize\<close>).  If it is longer
  than the cap, the truncated text is its first \<open>cap - 1\<close> code points followed by one
  ellipsis, otherwise it is the normalized text itself; so the truncated text is never
  longer than the cap.
\<close>

theorem C3_truncation_rule:
  "base_text content = spec_normalize content \<and>
   truncated_text (cap_of ul len) (base_text content) =
     (if cap_of ul len < int (length (base_text content))
      then take (nat (cap_of ul len) - 1) (base_text content) @ [ellipsis]
      else base_text content) \<and>
   int (length (truncated_text (cap_of ul len) (base_text content))) =
     min (cap_of ul len) (int (length (base_text content)))"
proof -
  have c: "1 \<le> cap_of ul len" using cap_of_cases [of ul len] by auto
  show ?thesis
    using truncated_text_long [OF c, of "base_text content"]
      truncated_text_short [of "base_text content" "cap_of ul len"]
      length_truncated_text [OF c, of "base_text content"]
    by (simp add: base_text_spec)
qed

theorem C3_truncation_rule_witness:
  "truncated_text (cap_of keep_lower (ascii ''short'')) (base_text (replicate 161 97)) =
     replicate 159 97 @ [ellipsis] \<and>
   truncated_text (cap_of keep_lower (ascii ''short'')) (base_text (ascii ''  two   words  '')) =
     ascii ''two words''"
proof -
  have b: "base_text (ascii ''  two   words  '') = ascii ''two words''"
    by (simp add: base_text_def py_split_def ascii_simps isspace_def)
  note r1 = C3_truncation_rule [of "replicate 161 97" keep_lower "ascii ''short''",
      THEN conjunct2, THEN conjunct1]
  note r2 = C3_truncation_rule [of "ascii ''  two   words  ''" keep_lower "ascii ''short''",
      THEN conjunct2, THEN conjunct1]
  have 1: "truncated_text (cap_of keep_lower (ascii ''short'')) (base_text (replicate 161 97)) =
      replicate 159 97 @ [ellipsis]"
    using r1 by (simp add: cap_of_short base_text_no_space [OF no_space_replicate_a])
  have 2: "truncated_text (cap_of keep_lower (ascii ''short''))
      (base_text (ascii ''  two   words  '')) = ascii ''two words''"
    using r2 by (simp add: cap_of_short b) (simp add: ascii_simps)
  from 1 2 show ?thesis by simp
qed

text \<open>
  Claim C4.  Provided the runtime's lowercasing never makes a space out of a non-ASCII
  code point (the header parsing rests on it), a call fails exactly when no source
  yields content (trimmed text empty, no content from a file, no image) or the file was
  read and the read raised; the file is read only when the trimmed text is empty.  The
  first case answers \<open>no_input\<close>, the second \<open>could_not_read\<close>, both with status 400, and
  no other error leaves the function.  Whether a call fails does not depend on the
  tone, length and language values.
\<close>

theorem C4_failures:
  assumes "lower_makes_no_space ul"
  shows "(isl (summarize ul rq) \<longleftrightarrow> no_source_content rq \<or> file_read_failed rq) \<and>
     (summarize ul rq = Inl could_not_read \<longleftrightarrow> file_read_failed rq) \<and>
     (summarize ul rq = Inl no_input \<longleftrightarrow> no_source_content rq \<and> \<not> file_read_failed rq) \<and>
     (\<forall>e. summarize ul rq = Inl e \<longrightarrow> (\<exists>detail. e = HTTPException 400 detail)) \<and>
     isl (summarize ul (rq\<lparr>tone_in := t, length_in := l, language_in := g\<rparr>))
       = isl (summarize ul rq)"
proof -
  have 1: "isl (summarize ul rq) \<longleftrightarrow> no_source_content rq \<or> file_read_failed rq"
    by (simp add: isl_summarize [OF assms] isl_resolve_content)
  have 2: "summarize ul rq = Inl could_not_read \<longleftrightarrow> file_read_failed rq"
    using errors_differ by (auto simp: summarize_Inl_iff [OF assms] resolve_content_Inl_iff)
  have 3: "summarize ul rq = Inl no_input \<longleftrightarrow> no_source_content rq \<and> \<not> file_read_failed rq"
    using errors_differ by (auto simp: summarize_Inl_iff [OF assms] resolve_content_Inl_iff)
  have 4: "\<forall>e. summarize ul rq = Inl e \<longrightarrow> (\<exists>detail. e = HTTPException 400 detail)"
    by (auto simp: summarize_Inl_iff [OF assms] resolve_content_Inl_iff could_not_read_def
        no_input_def)
  have 5: "isl (summarize ul (rq\<lparr>tone_in := t, length_in := l, language_in := g\<rparr>))
       = isl (summarize ul rq)"
    by (simp add: isl_summarize [OF assms] isl_resolve_content no_source_content_def
        file_read_failed_def file_is_read_def file_content_def)
  from 1 2 3 4 5 show ?thesis by blast
qed

text \<open>
  Claim C4 on the request without text, file and image: the 400 answer \<open>No input
  provided\<close>.
\<close>

theorem C4_failures_witness:
  "lower_makes_no_space keep_lower \<and> no_source_content default_request \<and>
   \<not> file_read_failed default_request \<and>
   summarize keep_lower default_request =
     Inl (HTTPException 400 (ascii ''No input provided. Submit text, a file, or an image.''))"
proof -
  have n: "no_source_content default_request"
    by (simp add: no_source_content_def default_request_def file_content_def py_strip_def)
  have f: "\<not> file_read_failed default_request"
    by (simp add: file_read_failed_def file_is_read_def default_request_def)
  from C4_failures [OF keep_lower_no_space, of default_request] n f
  have "summarize keep_lower default_request = Inl no_input" by blast
  with keep_lower_no_space n f show ?thesis by (simp add: no_input_def)
qed





text \<open>
  Claim C6.  Each of the three lookups depends on its argument only through
  \<open>str.lower()\<close>, returns the table's entry for a known key and the default (160,
  \<open>Summary:\<close>, no suffix) for every other value.  On an ASCII argument the lowercase
  is taken letter by letter, so the result does not change with the case of the
  letters.  The tone \<open>WEIRD\<close> gets the prefix \<open>Summary:\<close>.
\<close>

theorem C6_lookups:
  "cap_of ul len =
     (if py_lower ul len = ascii ''short'' then 160
      else if py_lower ul len = ascii ''medium'' then 320
      else if py_lower ul len = ascii ''detailed'' then 480 else 160) \<and>
   tone_prefix ul t =
     (if py_lower ul t = ascii ''analytical'' then ascii ''Analytical summary:''
      else if py_lower ul t = ascii ''executive'' then ascii ''Executive brief:''
      else if py_lower ul t = ascii ''neutral'' then ascii ''Summary:''
      else if py_lower ul t = ascii ''technical'' then ascii ''Technical digest:''
      else ascii ''Summary:'') \<and>
   lang_label ul g =
     (if py_lower ul g = ascii ''en'' then []
      else if py_lower ul g = ascii ''es'' then ascii '' (ES)''
      else if py_lower ul g = ascii ''de'' then ascii '' (DE)''
      else if py_lower ul g = ascii ''fr'' then ascii '' (FR)''
      else []) \<and>
   (list_all (\<lambda>c. c < 128) s \<longrightarrow>
      py_lower ul s = map ascii_lower s \<and>
      cap_of ul s = cap_of ul (map ascii_lower s) \<and>
      tone_prefix ul s = tone_prefix ul (map ascii_lower s) \<and>
      lang_label ul s = lang_label ul (map ascii_lower s)) \<and>
   tone_prefix ul (ascii ''WEIRD'') = ascii ''Summary:''"
  using cap_of_eq [of ul len] tone_prefix_eq [of ul t] lang_label_eq [of ul g] tone_prefix_weird [of ul]
  by (simp add: py_lower_ascii py_lower_map_ascii_lower cap_of_def tone_prefix_def
      lang_label_def)

theorem C6_lookups_witness:
  "list_all (\<lambda>c. c < 128) (ascii ''MeDiUm'') \<and>
   map ascii_lower (ascii ''MeDiUm'') = ascii ''medium'' \<and>
   cap_of keep_lower (ascii ''MeDiUm'') = 320 \<and>
   cap_of keep_lower (ascii ''medium'') = 320 \<and>
   tone_prefix keep_lower (ascii ''WEIRD'') = ascii ''Summary:''"
proof -
  have a: "list_all (\<lambda>c. c < 128) (ascii ''MeDiUm'')" by (simp add: ascii_simps)
  have m: "map ascii_lower (ascii ''MeDiUm'') = ascii ''medium''"
    by (simp add: ascii_simps ascii_lower_def)
  have l: "list_all (\<lambda>c. c < 128) (ascii ''medium'')" by (simp add: ascii_simps)
  have m': "map ascii_lower (ascii ''medium'') = ascii ''medium''"
    by (simp add: ascii_simps ascii_lower_def)
  from C6_lookups [of keep_lower "ascii ''medium''" "[]" "[]" "ascii ''medium''"] l m'
  have "cap_of keep_lower (ascii ''medium'') = 320" by (simp add: ascii_simps)
  with C6_lookups [of keep_lower "[]" "[]" "[]" "ascii ''MeDiUm''"] a m show ?thesis by simp
qed

text \<open>
  Claim C7.  For every call that succeeds with bullets on, whatever the content, the
  body splits at its newlines into exactly three lines, each starting with the bullet
  and a space.  The first is \<open>Key point 1:\<close> followed by the trimmed first segment of
  the truncated text split at full stops, or by the whole truncated text when that
  segment is empty; the second and third are the two fixed lines.
\<close>

theorem C7_bullets_body:
  fixes ul :: ulower and rq :: request and content :: str
  defines "t \<equiv> truncated_text (cap_of ul (length_in rq)) (base_text content)"
  defines "seg \<equiv> takeWhile (\<lambda>c. c \<noteq> 46) t"
  assumes "summarize ul rq = Inr r" and "bullets_in rq"
    and "resolve_content rq = Inr (content, used)"
  shows "\<exists>body segs.
     make_body (bullets_in rq) t = Inr body \<and>
     summary r = tone_prefix ul (tone_in rq) @ lang_label ul (language_in rq) @ [newline] @ body \<and>
     split_on 46 t = seg # segs \<and>
     split_on newline body =
       [bullet # ascii '' Key point 1: '' @ (if seg = [] then t else py_strip seg),
        bullet # ascii '' Key point 2: Impact and implications.'',
        bullet # ascii '' Next steps: Actions to take.''] \<and>
     list_all (\<lambda>l. take 2 l = [bullet, 32]) (split_on newline body)"
proof -
  let ?cap = "cap_of ul (length_in rq)"
  let ?body = "bullet_line1 t @ [newline] @ bullet_line2 @ [newline] @ bullet_line3"
  have c: "1 \<le> ?cap" using cap_of_cases [of ul "length_in rq"] by auto
  from summarize_Inr_D [OF assms(3)] assms(5)
  have r: "r = response_of ul rq content used" by auto
  have 1: "make_body (bullets_in rq) t = Inr ?body"
    using assms(4) by (simp add: make_body_eq body_text_def)
  have 2: "summary r = tone_prefix ul (tone_in rq) @ lang_label ul (language_in rq) @ [newline]
      @ ?body"
    using assms(4) by (simp add: r response_of_def body_text_def t_def)
  obtain segs where 3: "split_on 46 t = seg # segs"
    using split_on_takeWhile [of 46 t] by (auto simp: seg_def)
  have l1: "bullet_line1 t = bullet # ascii '' Key point 1: '' @ (if seg = [] then t else py_strip seg)"
    unfolding t_def seg_def using bullet_line1_eq [OF c] by (simp add: t_def)
  have "split_on newline ?body = [bullet_line1 t, bullet_line2, bullet_line3]"
    using newline_notin_bullet_line1 [OF c, of content] newline_notin_ascii_lines
    by (intro split_on_three_lines) (simp_all add: t_def)
  then have 4: "split_on newline ?body =
       [bullet # ascii '' Key point 1: '' @ (if seg = [] then t else py_strip seg),
        bullet # ascii '' Key point 2: Impact and implications.'',
        bullet # ascii '' Next steps: Actions to take.'']"
    by (simp add: l1 bullet_line2_def bullet_line3_def)
  have 5: "list_all (\<lambda>l. take 2 l = [bullet, 32]) (split_on newline ?body)"
    unfolding 4 by (simp add: ascii_simps)
  from 1 2 3 4 5 show ?thesis by blast
qed


text \<open>
  Claim C7 on the text \<open>.env file\<close>: the first segment is empty, so the first line
  quotes the whole text.
\<close>

theorem C7_bullets_body_witness:
  "summarize keep_lower dot_request = Inr (response_of keep_lower dot_request (ascii ''.env file'') []) \<and>
   bullets_in dot_request \<and>
   resolve_content dot_request = Inr (ascii ''.env file'', []) \<and>
   (\<exists>body.
      summary (response_of keep_lower dot_request (ascii ''.env file'') []) =
        ascii ''Analytical summary:'' @ [newline] @ body \<and>
      split_on newline body =
        [bullet # ascii '' Key point 1: .env file'',
         bullet # ascii '' Key point 2: Impact and implications.'',
         bullet # ascii '' Next steps: Actions to take.''])"
proof -
  have h: "authorization dot_request = None" "x_api_key dot_request = None"
    by (simp_all add: dot_request_def default_request_def)
  have o: "length_in dot_request = ascii ''short''" "bullets_in dot_request"
    "tone_in dot_request = ascii ''analytical''" "language_in dot_request = ascii ''en''"
    by (simp_all add: dot_request_def default_request_def)
  have t: "truncated_text 160 (ascii ''.env file'') = ascii ''.env file''"
    by (simp add: truncated_text_def ascii_simps)
  have k: "takeWhile (\<lambda>c. c \<noteq> 46) (ascii ''.env file'') = []"
    by (simp add: ascii_simps)
  note s = summarize_no_headers [OF h resolve_dot, of keep_lower]
  obtain body where
    "summary (response_of keep_lower dot_request (ascii ''.env file'') []) =
        ascii ''Analytical summary:'' @ [newline] @ body"
    "split_on newline body =
        [bullet # ascii '' Key point 1: .env file'',
         bullet # ascii '' Key point 2: Impact and implications.'',
         bullet # ascii '' Next steps: Actions to take.'']"
  proof -
    have e: "ascii '' Key point 1: '' @ ascii ''.env file'' = ascii '' Key point 1: .env file''"
      by (simp add: ascii_simps)
    from C7_bullets_body [OF s o(2) resolve_dot] show ?thesis
      by (auto simp: o cap_of_short base_dot t k tone_prefix_analytical lang_label_en e
          intro: that)
  qed
  with s o(2) resolve_dot show ?thesis by blast
qed

text \<open>
  Claim C8.  The summary of every successful call is the tone prefix, the language
  suffix, one newline and the body; neither the prefix nor the suffix holds a newline,
  so the first newline is the one before the body.  For the text
  \<open>Hello world. This matters.\<close> with tone \<open>executive\<close>, length \<open>short\<close>, bullets off
  and language \<open>en\<close> the summary is \<open>Executive brief:\<close>, a newline and the text itself.
\<close>

theorem C8_summary_layout:
  "(summarize ul rq = Inr r \<longrightarrow>
      (\<exists>content used body.
         resolve_content rq = Inr (content, used) \<and>
         make_body (bullets_in rq)
           (truncated_text (cap_of ul (length_in rq)) (base_text content)) = Inr body \<and>
         summary r =
           tone_prefix ul (tone_in rq) @ lang_label ul (language_in rq) @ [newline] @ body)) \<and>
   newline \<notin> set (tone_prefix ul (tone_in rq) @ lang_label ul (language_in rq)) \<and>
   summarize ul hello_request =
     Inr \<lparr>summary = ascii ''Executive brief:'' @ [newline] @ ascii ''Hello world. This matters.'',
          tone = ascii ''executive'', length_out = ascii ''short'', language = ascii ''en'',
          bullets = False, used_input = ascii ''text''\<rparr>"
proof -
  have 1: "summarize ul rq = Inr r \<longrightarrow>
      (\<exists>content used body.
         resolve_content rq = Inr (content, used) \<and>
         make_body (bullets_in rq)
           (truncated_text (cap_of ul (length_in rq)) (base_text content)) = Inr body \<and>
         summary r =
           tone_prefix ul (tone_in rq) @ lang_label ul (language_in rq) @ [newline] @ body)"
  proof
    assume "summarize ul rq = Inr r"
    from summarize_Inr_D [OF this] obtain content used where
      a: "resolve_content rq = Inr (content, used)" "r = response_of ul rq content used"
      by blast
    have "summary r = tone_prefix ul (tone_in rq) @ lang_label ul (language_in rq) @ [newline]
       @ body_text (bullets_in rq) (truncated_text (cap_of ul (length_in rq)) (base_text content))"
      by (simp add: a(2) response_of_def)
    with a(1) make_body_eq show "\<exists>content used body.
         resolve_content rq = Inr (content, used) \<and>
         make_body (bullets_in rq)
           (truncated_text (cap_of ul (length_in rq)) (base_text content)) = Inr body \<and>
         summary r =
           tone_prefix ul (tone_in rq) @ lang_label ul (language_in rq) @ [newline] @ body"
      by blast
  qed
  have 2: "newline \<notin> set (tone_prefix ul (tone_in rq) @ lang_label ul (language_in rq))"
    using newline_notin_prefix newline_notin_label by simp
  from 1 2 summarize_hello show ?thesis by blast
qed

text \<open>
  Claim C8 at the scenario's request and the lowercase table \<open>keep_lower\<close>.
\<close>

theorem C8_summary_layout_witness:
  "summarize keep_lower hello_request =
     Inr \<lparr>summary = ascii ''Executive brief:'' @ [newline] @ ascii ''Hello world. This matters.'',
          tone = ascii ''executive'', length_out = ascii ''short'', language = ascii ''en'',
          bullets = False, used_input = ascii ''text''\<rparr> \<and>
   (\<exists>body.
      make_body (bullets_in hello_request)
        (truncated_text (cap_of keep_lower (length_in hello_request))
           (base_text (ascii ''Hello world. This matters.''))) = Inr body \<and>
      ascii ''Executive brief:'' @ [newline] @ ascii ''Hello world. This matters.'' =
        tone_prefix keep_lower (tone_in hello_request)
          @ lang_label keep_lower (language_in hello_request) @ [newline] @ body)"
proof -
  let ?r = "\<lparr>summary = ascii ''Executive brief:'' @ [newline] @ ascii ''Hello world. This matters.'',
          tone = ascii ''executive'', length_out = ascii ''short'', language = ascii ''en'',
          bullets = False, used_input = ascii ''text''\<rparr>"
  note c = C8_summary_layout [of keep_lower hello_request ?r]
  from c have s: "summarize keep_lower hello_request = Inr ?r" by blast
  with c obtain content used body where
    b: "resolve_content hello_request = Inr (content, used)"
      "make_body (bullets_in hello_request)
        (truncated_text (cap_of keep_lower (length_in hello_request)) (base_text content))
        = Inr body"
      "summary ?r = tone_prefix keep_lower (tone_in hello_request)
          @ lang_label keep_lower (language_in hello_request) @ [newline] @ body"
    by blast
  from b(1) resolve_hello have "content = ascii ''Hello world. This matters.''" by simp
  with s b(2,3) show ?thesis by auto
qed

text \<open>
  Claim C9, as stated, fails for a text that is non-empty but blank.  With the text of
  one space and the file \<open>notes.txt\<close> holding \<open>hi\<close> the call succeeds and
  \<open>used_input\<close> is \<open>notes.txt\<close>: neither \<open>text\<close> nor empty.
\<close>

theorem C9_counterexample:
  "text_in blank_text_request = Some (ascii '' '') \<and> ascii '' '' \<noteq> [] \<and>
   summarize keep_lower blank_text_request =
     Inr (response_of keep_lower blank_text_request (ascii ''hi'') (ascii ''notes.txt'')) \<and>
   used_input (response_of keep_lower blank_text_request (ascii ''hi'') (ascii ''notes.txt''))
     = ascii ''notes.txt'' \<and>
   ascii ''notes.txt'' \<noteq> ascii ''text'' \<and> ascii ''notes.txt'' \<noteq> []"
proof -
  have h: "authorization blank_text_request = None" "x_api_key blank_text_request = None"
    by (simp_all add: blank_text_request_def default_request_def)
  note s = summarize_no_headers [OF h resolve_blank_text, of keep_lower]
  have t: "text_in blank_text_request = Some (ascii '' '')"
    by (simp add: blank_text_request_def default_request_def)
  have n: "ascii ''notes.txt'' \<noteq> []" "ascii ''notes.txt'' \<noteq> ascii ''text''" "ascii '' '' \<noteq> []"
    by (simp_all add: ascii_simps)
  have "used_input (response_of keep_lower blank_text_request (ascii ''hi'') (ascii ''notes.txt''))
     = ascii ''notes.txt''" using n(1) by (simp add: response_of_def)
  with s t n show ?thesis by simp
qed

text \<open>
  Claim C9, amended.  In every successful call \<open>used_input\<close> is the label of the
  resolved content when there is one, else \<open>text\<close> when the text field is non-empty,
  else empty.  The label is the file's name or \<open>uploaded file\<close> when the file gave
  the content, the image's name or \<open>uploaded image\<close> when the image did, and there is
  none when the text did, which is when the text is non-empty after trimming: then
  \<open>used_input\<close> is \<open>text\<close>.  It is never empty.
\<close>

theorem C9_used_input:
  assumes "summarize ul rq = Inr r"
  shows "\<exists>content label.
     resolve_content rq = Inr (content, label) \<and>
     used_input r =
       (if label \<noteq> [] then label else if truthy (text_in rq) then ascii ''text'' else []) \<and>
     (py_strip (py_or (text_in rq) []) \<noteq> [] \<longrightarrow>
        content = py_strip (py_or (text_in rq) []) \<and> label = [] \<and> truthy (text_in rq) \<and>
        used_input r = ascii ''text'') \<and>
     (py_strip (py_or (text_in rq) []) = [] \<and> file_content rq \<noteq> [] \<longrightarrow>
        content = file_content rq \<and>
        (\<exists>f. file_in rq = Some f \<and> label = py_or (filename f) (ascii ''uploaded file'')) \<and>
        used_input r = label) \<and>
     (py_strip (py_or (text_in rq) []) = [] \<and> file_content rq = [] \<longrightarrow>
        (\<exists>im. image_in rq = Some im \<and> label = py_or (filename im) (ascii ''uploaded image'')) \<and>
        content = ascii ''[Image: '' @ label @ ascii '']'' \<and>
        used_input r = label) \<and>
     used_input r \<noteq> []"
proof -
  from summarize_Inr_D [OF assms] obtain content label where
    a: "resolve_content rq = Inr (content, label)" and r: "r = response_of ul rq content label"
    by blast
  have u: "used_input r =
       (if label \<noteq> [] then label else if truthy (text_in rq) then ascii ''text'' else [])"
    by (simp add: r response_of_def)
  let ?t = "py_strip (py_or (text_in rq) [])"
  have tx: "ascii ''text'' \<noteq> []" by (simp add: ascii_simps)
  show ?thesis
  proof (cases "?t \<noteq> []")
    case True
    then have "truthy (text_in rq)" using py_strip_nonempty py_or_nonempty_truthy by blast
    with True a u tx show ?thesis by (auto simp: resolve_content_cases)
  next
    case False
    note e = this
    show ?thesis
    proof (cases "file_content rq \<noteq> []")
      case True
      from file_content_nonempty_D [OF True] obtain f where f: "file_in rq = Some f" by blast
      from f have l: "file_label rq = py_or (filename f) (ascii ''uploaded file'')"
        by (simp add: file_label_def)
      from a e True have "content = file_content rq \<and> label = file_label rq"
        by (auto simp: resolve_content_cases split: if_splits)
      with a u e True f l file_label_nonempty [OF f] show ?thesis by auto
    next
      case False
      from a e False obtain im where im: "image_in rq = Some im"
        "content = image_content im" "label = image_label im"
        by (auto simp: resolve_content_cases split: if_splits option.splits)
      with a u e False image_label_nonempty [of im] show ?thesis
        by (auto simp: image_content_def image_label_def)
    qed
  qed
qed

text \<open>
  The amended claim C9 on the file \<open>notes.txt\<close>.
\<close>

theorem C9_used_input_witness:
  "summarize keep_lower notes_request =
     Inr (response_of keep_lower notes_request (ascii ''hi'') (ascii ''notes.txt'')) \<and>
   used_input (response_of keep_lower notes_request (ascii ''hi'') (ascii ''notes.txt''))
     = ascii ''notes.txt''"
proof -
  have h: "authorization notes_request = None" "x_api_key notes_request = None"
    by (simp_all add: notes_request_def default_request_def)
  note s = summarize_no_headers [OF h resolve_notes, of keep_lower]
  have n: "ascii ''notes.txt'' \<noteq> []" by (simp add: ascii_simps)
  from C9_used_input [OF s] resolve_notes n
  have "used_input (response_of keep_lower notes_request (ascii ''hi'') (ascii ''notes.txt''))
     = ascii ''notes.txt''" by auto
  with s show ?thesis by simp
qed

text \<open>
  Claim C10.  With an empty or absent text and a readable file whose bytes decode to a
  non-empty string of whitespace only, the content is that string, its normal form is
  empty, and the call succeeds; with bullets off the summary is the tone prefix, the
  language suffix and a newline, with nothing after it.
\<close>

theorem C10_whitespace_file:
  assumes "lower_makes_no_space ul"
    and "text_in rq = None \<or> text_in rq = Some []"
    and "file_in rq = Some f" and "read f = Inr raw"
    and "decode Ignore raw = Inr s" and "s \<noteq> []" and "list_all isspace s"
  shows "resolve_content rq = Inr (s, py_or (filename f) (ascii ''uploaded file'')) \<and>
     base_text s = [] \<and>
     (\<exists>r. summarize ul rq = Inr r \<and>
        (\<not> bullets_in rq \<longrightarrow>
           summary r = tone_prefix ul (tone_in rq) @ lang_label ul (language_in rq) @ [newline]))"
proof -
  have t: "py_strip (py_or (text_in rq) []) = []"
    using assms(2) by (auto simp: py_strip_def)
  have 1: "resolve_content rq = Inr (s, py_or (filename f) (ascii ''uploaded file''))"
    using t assms(3-6)
    by (auto simp: resolve_content_cases file_read_failed_def file_content_def file_label_def)
  have 2: "base_text s = []" using assms(7) by (rule base_text_all_space)
  note ok = summarize_ok [OF assms(1) 1]
  have "\<not> bullets_in rq \<longrightarrow>
     summary (response_of ul rq s (py_or (filename f) (ascii ''uploaded file''))) =
       tone_prefix ul (tone_in rq) @ lang_label ul (language_in rq) @ [newline]"
    using cap_of_cases [of ul "length_in rq"]
    by (auto simp: response_of_def body_text_def 2 truncated_text_def)
  with 1 2 ok show ?thesis by blast
qed

text \<open>
  Claim C10 on a file holding a space and a newline.
\<close>

theorem C10_whitespace_file_witness:
  "lower_makes_no_space keep_lower \<and> text_in blank_file_request = None \<and>
   file_in blank_file_request = Some \<lparr>filename = Some (ascii ''blank.txt''), read = Inr [0x20, 0x0A]\<rparr> \<and>
   decode Ignore [0x20, 0x0A] = Inr [32, 10] \<and> list_all isspace [32, 10] \<and>
   (\<exists>r. summarize keep_lower blank_file_request = Inr r \<and>
        summary r = ascii ''Analytical summary:'' @ [newline])"
proof -
  let ?f = "\<lparr>filename = Some (ascii ''blank.txt''), read = Inr [0x20, 0x0A]\<rparr>"
  have a: "text_in blank_file_request = None"
    and b: "file_in blank_file_request = Some ?f"
    and o: "\<not> bullets_in blank_file_request" "tone_in blank_file_request = ascii ''analytical''"
      "language_in blank_file_request = ascii ''en''"
    by (simp_all add: blank_file_request_def default_request_def)
  have c: "read ?f = Inr [0x20, 0x0A]" by simp
  have w: "list_all isspace [32, 10]" by (simp add: isspace_def)
  have ne: "[32, 10::nat] \<noteq> []" by simp
  from C10_whitespace_file [OF keep_lower_no_space disjI1 [OF a] b c decode_ascii_bytes ne w] o
  have "\<exists>r. summarize keep_lower blank_file_request = Inr r \<and>
        summary r = ascii ''Analytical summary:'' @ [newline]"
    by (auto simp: tone_prefix_analytical lang_label_en)
  with keep_lower_no_space a b w decode_ascii_bytes show ?thesis by blast
qed

end
